theory Spec2Isabelle
  imports Main "HOL-Library.Word"
begin

section \<open>The etcd-backed meta service of vineyard (etcd\_meta\_service.h / .cc)\<close>

text \<open>
  The embedding follows \<^verbatim>\<open>src/server/services/etcd_meta_service.h\<close> and
  \<^verbatim>\<open>src/server/services/etcd_meta_service.cc\<close>. Logging, wall-clock instrumentation and
  the backtrace text have no influence on any computed value and are left out; everything
  else a function does (calls on the etcd client, callbacks posted on the meta context,
  member updates) is a value of the model.
\<close>

subsection \<open>Revisions, status values and operation records\<close>

text \<open>The C++ type \<^verbatim>\<open>unsigned\<close> of every revision argument: 32 bits, wrapping.\<close>

type_synonym unsigned = "32 word"

text \<open>
  Modelled from the spec: \<^verbatim>\<open>Status\<close> is declared in common/util/status.h, which is not among
  the sources. The spec gives it as a sum type carrying OK, EtcdError(code, msg) and
  Invalid(msg).
\<close>

datatype Status = OK | EtcdError int string | Invalid string

text \<open>
  Modelled from the spec: the factory \<^verbatim>\<open>Status::EtcdError(error_code, error_message)\<close> of
  the same missing header; the status "carries err\_code/err\_msg (OK when the response is
  error-free)".
\<close>

definition Status_EtcdError :: "int \<Rightarrow> string \<Rightarrow> Status" where
  "Status_EtcdError code msg = (if code = 0 then OK else EtcdError code msg)"

text \<open>
  Modelled from the spec: \<^verbatim>\<open>IMetaService::op_t\<close> is declared in meta\_service.h, which is
  not among the sources. The sources use its members \<^verbatim>\<open>op\<close>, \<^verbatim>\<open>kv.key\<close>, \<^verbatim>\<open>kv.value\<close>, the
  tags \<^verbatim>\<open>kPut\<close> and \<^verbatim>\<open>kDel\<close> and the factories \<^verbatim>\<open>Put(key, value, rev)\<close> and
  \<^verbatim>\<open>Del(key, rev)\<close>; the spec gives the variants Put{key, value, rev} and Del{key, rev}.
\<close>

datatype op_type_t = kPut | kDel

record kv_t =
  kv_key :: string
  kv_value :: string
  kv_rev :: unsigned

record op_t =
  op :: op_type_t
  kv :: kv_t

definition op_t_Put :: "string \<Rightarrow> string \<Rightarrow> unsigned \<Rightarrow> op_t" where
  "op_t_Put k v r = \<lparr>op = kPut, kv = \<lparr>kv_key = k, kv_value = v, kv_rev = r\<rparr>\<rparr>"

definition op_t_Del :: "string \<Rightarrow> unsigned \<Rightarrow> op_t" where
  "op_t_Del k r = \<lparr>op = kDel, kv = \<lparr>kv_key = k, kv_value = [], kv_rev = r\<rparr>\<rparr>"

text \<open>
  Modelled from the spec: a default-constructed \<^verbatim>\<open>op_t\<close>, as \<^verbatim>\<open>std::vector<op_t>(n)\<close>
  creates it. Both strings of a default-constructed record are empty; the tag and the
  revision depend on the missing declaration and are parameters.
\<close>

definition op_t_default :: "op_type_t \<Rightarrow> unsigned \<Rightarrow> op_t" where
  "op_t_default t r = \<lparr>op = t, kv = \<lparr>kv_key = [], kv_value = [], kv_rev = r\<rparr>\<rparr>"

subsection \<open>The etcd client\<close>

text \<open>
  The client library (etcd-cpp-apiv3) is an external collaborator. A response carries an
  error code and message, the revision \<^verbatim>\<open>index()\<close> and the payload the sources read:
  \<^verbatim>\<open>events()\<close>, the parallel \<^verbatim>\<open>keys()\<close>/\<^verbatim>\<open>values()\<close> vectors (a list of pairs) and
  \<^verbatim>\<open>lock_key()\<close>. The library's integers are signed; they become \<^verbatim>\<open>unsigned\<close> where the
  sources pass them to an \<^verbatim>\<open>unsigned\<close> parameter.
\<close>

text \<open>
  \<^verbatim>\<open>mvccpb::Event::EventType\<close>; \<open>DELETE\<close> is the enumerator the sources spell with a
  trailing underscore.
\<close>

datatype EventType = PUT | DELETE | OtherEventType int

record Event =
  ev_type :: EventType
  ev_key :: string
  ev_value :: string
  ev_mod_revision :: int

record Response =
  error_code :: int
  error_message :: string
  index :: int
  events :: "Event list"
  keys_values :: "(string \<times> string) list"
  lock_key :: string

text \<open>The library's \<^verbatim>\<open>Response::is_ok()\<close>: the error code is zero.\<close>

definition is_ok :: "Response \<Rightarrow> bool" where
  "is_ok r = (error_code r = 0)"

text \<open>One operation of an \<^verbatim>\<open>etcdv3::Transaction\<close>, and one request to the backing store.\<close>

datatype tx_op = setup_put string string | setup_delete string

datatype etcd_call =
    Lock string
  | Unlock string
  | Txn "tx_op list"
  | Ls string
  | Watch string unsigned bool

text \<open>
  A request is either awaited on the spot (\<^verbatim>\<open>.get()\<close>) or continued later
  (\<^verbatim>\<open>.then(...)\<close>).
\<close>

datatype wait_mode = Sync | Async

record etcd_entry =
  e_call :: etcd_call
  e_mode :: wait_mode
  e_resp :: Response

text \<open>
  The backing store is a black box: its answer to a request is some function of the
  requests made so far. The client's state is the history of its requests, so that
  "the backing store was contacted" is an entry of the history.
\<close>

type_synonym etcd_server = "etcd_entry list \<Rightarrow> etcd_call \<Rightarrow> Response"

definition etcd_request ::
  "etcd_server \<Rightarrow> etcd_call \<Rightarrow> wait_mode \<Rightarrow> etcd_entry list \<Rightarrow> Response \<times> etcd_entry list" where
  "etcd_request srv c m h =
     (let r = srv h c in (r, h @ [\<lparr>e_call = c, e_mode = m, e_resp = r\<rparr>]))"

subsection \<open>EtcdLock\<close>

text \<open>
  The members \<^verbatim>\<open>released_\<close>, \<^verbatim>\<open>traceback_\<close> and \<^verbatim>\<open>callback_\<close> (a name cannot end with an
  underscore here). \<^verbatim>\<open>callback_\<close> is the stored release closure, \<^verbatim>\<open>callback_t<unsigned&>\<close>:
  it takes a status and the revision out-parameter, may use the etcd client, and returns a
  status. \<^verbatim>\<open>lock_rev\<close> is the revision kept by the base class \<^verbatim>\<open>ILock\<close>.
\<close>

record EtcdLock =
  released :: bool
  traceback :: string
  callback :: "Status \<Rightarrow> unsigned \<Rightarrow> etcd_entry list \<Rightarrow> Status \<times> unsigned \<times> etcd_entry list"
  lock_rev :: unsigned

definition EtcdLock_new ::
  "string \<Rightarrow> (Status \<Rightarrow> unsigned \<Rightarrow> etcd_entry list \<Rightarrow> Status \<times> unsigned \<times> etcd_entry list)
     \<Rightarrow> unsigned \<Rightarrow> EtcdLock" where
  "EtcdLock_new tb cb rv =
     \<lparr>released = False, traceback = tb, callback = cb, lock_rev = rv\<rparr>"

text \<open>
  \<^verbatim>\<open>Release(unsigned& rev)\<close>: the atomic \<^verbatim>\<open>released_.exchange(true)\<close> leaves the flag set
  on both branches. The result is the returned status, the out-parameter, the handle and
  the etcd client.
\<close>

definition Release ::
  "EtcdLock \<Rightarrow> unsigned \<Rightarrow> etcd_entry list \<Rightarrow> Status \<times> unsigned \<times> EtcdLock \<times> etcd_entry list" where
  "Release l rv h =
     (if \<not> released l then
        (case callback l OK rv h of
           (st, rv', h') \<Rightarrow> (st, rv', l\<lparr>released := True\<rparr>, h'))
      else (Invalid ''double unlock'', rv, l\<lparr>released := True\<rparr>, h))"

text \<open>
  The closure built in \<^verbatim>\<open>requestLock\<close> (lines 98-114): a synchronous
  \<^verbatim>\<open>etcd_->unlock(lock_key).get()\<close>, the revision written only when the response is ok.
\<close>

definition unlock_closure ::
  "etcd_server \<Rightarrow> string \<Rightarrow> Status \<Rightarrow> unsigned \<Rightarrow> etcd_entry list
     \<Rightarrow> Status \<times> unsigned \<times> etcd_entry list" where
  "unlock_closure srv lk status rv h =
     (case etcd_request srv (Unlock lk) Sync h of
        (unlock_resp, h') \<Rightarrow>
          (Status_EtcdError (error_code unlock_resp) (error_message unlock_resp),
           (if is_ok unlock_resp then word_of_int (index unlock_resp) else rv),
           h'))"

text \<open>
  \<^verbatim>\<open>requestLock\<close>: the lock request is continued asynchronously; the continuation builds the
  handle and posts \<^verbatim>\<open>callback_after_locked(status, lock_ptr)\<close>. The result is the client and
  the posted call.
\<close>

definition requestLock ::
  "etcd_server \<Rightarrow> string \<Rightarrow> string \<Rightarrow> string \<Rightarrow> etcd_entry list
     \<Rightarrow> etcd_entry list \<times> (Status \<times> EtcdLock)" where
  "requestLock srv this_prefix lock_name tb h =
     (case etcd_request srv (Lock (this_prefix @ lock_name)) Async h of
        (resp, h') \<Rightarrow>
          (h', (Status_EtcdError (error_code resp) (error_message resp),
                EtcdLock_new tb (unlock_closure srv (lock_key resp))
                  (word_of_int (index resp)))))"

text \<open>A caller that calls \<^verbatim>\<open>Release\<close> several times in a row, with the given out-parameters.\<close>

fun Release_calls ::
  "unsigned list \<Rightarrow> EtcdLock \<Rightarrow> etcd_entry list
     \<Rightarrow> (Status \<times> unsigned) list \<times> EtcdLock \<times> etcd_entry list" where
  "Release_calls [] l h = ([], l, h)"
| "Release_calls (rv # rvs) l h =
     (case Release l rv h of
        (st, rv', l', h') \<Rightarrow>
          (case Release_calls rvs l' h' of
             (outs, l'', h'') \<Rightarrow> ((st, rv') # outs, l'', h'')))"

text \<open>
  The life of one handle under concurrent use, in atomic steps. An explicit \<^verbatim>\<open>Release\<close> is
  one step: its only access to the handle is the atomic exchange, and the closure it may run
  afterwards does not touch the handle. The destructor is two steps, the
  \<^verbatim>\<open>released_.load()\<close> and, when the load saw \<^verbatim>\<open>false\<close>, the call
  \<^verbatim>\<open>this->Release(unlock_rev)\<close> with \<^verbatim>\<open>unlock_rev = 0\<close> whose result is discarded; other
  threads may run between the two. No step is possible on a destroyed handle.
\<close>

datatype dtor_pc = Alive | SawUnreleased | Destroyed

datatype lock_action = CallRelease unsigned | DtorLoad | DtorRelease

record lock_run =
  lr_lock :: EtcdLock
  lr_etcd :: "etcd_entry list"
  lr_dtor :: dtor_pc

fun lock_step :: "lock_action \<Rightarrow> lock_run \<Rightarrow> lock_run option" where
  "lock_step (CallRelease rv) s =
     (if lr_dtor s = Destroyed then None
      else (case Release (lr_lock s) rv (lr_etcd s) of
              (st, rv', l', h') \<Rightarrow> Some (s\<lparr>lr_lock := l', lr_etcd := h'\<rparr>)))"
| "lock_step DtorLoad s =
     (if lr_dtor s \<noteq> Alive then None
      else Some (s\<lparr>lr_dtor := (if \<not> released (lr_lock s) then SawUnreleased else Destroyed)\<rparr>))"
| "lock_step DtorRelease s =
     (if lr_dtor s \<noteq> SawUnreleased then None
      else (case Release (lr_lock s) 0 (lr_etcd s) of
              (st, rv', l', h') \<Rightarrow>
                Some (s\<lparr>lr_lock := l', lr_etcd := h', lr_dtor := Destroyed\<rparr>)))"

fun lock_steps :: "lock_action list \<Rightarrow> lock_run \<Rightarrow> lock_run option" where
  "lock_steps [] s = Some s"
| "lock_steps (a # as) s =
     (case lock_step a s of None \<Rightarrow> None | Some s' \<Rightarrow> lock_steps as s')"

fun is_CallRelease :: "lock_action \<Rightarrow> bool" where
  "is_CallRelease (CallRelease _) = True"
| "is_CallRelease _ = False"

fun is_unlock :: "etcd_entry \<Rightarrow> bool" where
  "is_unlock e = (case e_call e of Unlock _ \<Rightarrow> True | _ \<Rightarrow> False)"

text \<open>The number of \<^verbatim>\<open>unlock\<close> requests the backing store has received.\<close>

definition unlock_count :: "etcd_entry list \<Rightarrow> nat" where
  "unlock_count h = length (filter is_unlock h)"

text \<open>
  The invariant of a handle's life: the flag is set exactly when an explicit release has
  happened or the destructor has finished, and then the client has received exactly one
  more request, the unlock of the handle's key.
\<close>

definition lock_inv ::
  "etcd_server \<Rightarrow> string \<Rightarrow> etcd_entry list \<Rightarrow> bool \<Rightarrow> lock_run \<Rightarrow> bool" where
  "lock_inv srv lk h called s =
     (callback (lr_lock s) = unlock_closure srv lk \<and>
      (released (lr_lock s) = (called \<or> lr_dtor s = Destroyed)) \<and>
      (if released (lr_lock s)
       then lr_etcd s = h @ [\<lparr>e_call = Unlock lk, e_mode = Sync, e_resp = srv h (Unlock lk)\<rparr>]
       else lr_etcd s = h))"

subsection \<open>commitUpdates\<close>

text \<open>The body of both \<^verbatim>\<open>for\<close> loops: one change adds at most one operation to \<^verbatim>\<open>tx\<close>.\<close>

definition setup_op :: "string \<Rightarrow> op_t \<Rightarrow> tx_op list" where
  "setup_op this_prefix c =
     (if op c = kPut then [setup_put (this_prefix @ kv_key (kv c)) (kv_value (kv c))]
      else if op c = kDel then [setup_delete (this_prefix @ kv_key (kv c))]
      else [])"

fun setup_all :: "string \<Rightarrow> op_t list \<Rightarrow> tx_op list" where
  "setup_all this_prefix [] = []"
| "setup_all this_prefix (c # cs) = setup_op this_prefix c @ setup_all this_prefix cs"

text \<open>
  What both exits post on the meta context:
  \<^verbatim>\<open>callback_after_updated(Status::EtcdError(code, message), resp.index())\<close>.
\<close>

definition post_of :: "Response \<Rightarrow> Status \<times> unsigned" where
  "post_of resp =
     (Status_EtcdError (error_code resp) (error_message resp), word_of_int (index resp))"

text \<open>
  The \<^verbatim>\<open>while\<close> loop (lines 131-151). The slice \<^verbatim>\<open>changes[offset .. offset + 127)\<close> is in
  range under the loop condition. \<^verbatim>\<open>Inl\<close> is the early return after a failed transaction,
  with the client and the posted callback; \<^verbatim>\<open>Inr\<close> is the normal exit with the final offset.
\<close>

function commit_loop ::
  "etcd_server \<Rightarrow> string \<Rightarrow> op_t list \<Rightarrow> nat \<Rightarrow> etcd_entry list
     \<Rightarrow> (etcd_entry list \<times> (Status \<times> unsigned)) + (nat \<times> etcd_entry list)" where
  "commit_loop srv this_prefix changes offset h =
     (if offset + 127 < length changes then
        (case etcd_request srv
                (Txn (setup_all this_prefix (take 127 (drop offset changes)))) Sync h of
           (resp, h') \<Rightarrow>
             if is_ok resp then commit_loop srv this_prefix changes (offset + 127) h'
             else Inl (h', post_of resp))
      else Inr (offset, h))"
  by pat_completeness auto
termination
  by (relation "measure (\<lambda>(srv, this_prefix, changes, offset, h). length changes - offset)") auto

declare commit_loop.simps [simp del]

text \<open>
  \<^verbatim>\<open>commitUpdates\<close>: the loop, then the last transaction, continued asynchronously. The result
  is the client and the list of callbacks posted on the meta context.
\<close>

definition commitUpdates ::
  "etcd_server \<Rightarrow> string \<Rightarrow> op_t list \<Rightarrow> etcd_entry list
     \<Rightarrow> etcd_entry list \<times> (Status \<times> unsigned) list" where
  "commitUpdates srv this_prefix changes h =
     (case commit_loop srv this_prefix changes 0 h of
        Inl (h', posted) \<Rightarrow> (h', [posted])
      | Inr (offset, h') \<Rightarrow>
          (case etcd_request srv (Txn (setup_all this_prefix (drop offset changes))) Async h' of
             (resp, h'') \<Rightarrow> (h'', [post_of resp])))"

text \<open>The transaction made of the \<open>j\<close>-th slice of 127 changes.\<close>

definition chunk_tx :: "string \<Rightarrow> op_t list \<Rightarrow> nat \<Rightarrow> etcd_call" where
  "chunk_tx this_prefix changes j =
     Txn (setup_all this_prefix (take 127 (drop (127 * j) changes)))"

subsection \<open>EtcdWatchHandler and requestAll\<close>

text \<open>\<^verbatim>\<open>boost::algorithm::starts_with(Input, Test)\<close> and \<^verbatim>\<open>erase_head_copy(Input, N)\<close>.\<close>

definition starts_with :: "string \<Rightarrow> string \<Rightarrow> bool" where
  "starts_with input test = (take (length test) input = test)"

definition erase_head_copy :: "string \<Rightarrow> nat \<Rightarrow> string" where
  "erase_head_copy input n = drop n input"

text \<open>The members \<^verbatim>\<open>prefix_\<close> and \<^verbatim>\<open>filter_prefix_\<close> of the handler.\<close>

record EtcdWatchHandler =
  wh_prefix :: string
  wh_filter_prefix :: string

text \<open>The body of the loop over \<^verbatim>\<open>resp.events()\<close> (lines 43-73), from \<^verbatim>\<open>ops\<close> to \<^verbatim>\<open>ops\<close>.\<close>

definition handle_event :: "EtcdWatchHandler \<Rightarrow> Event \<Rightarrow> op_t list \<Rightarrow> op_t list" where
  "handle_event w event ops =
     (if wh_filter_prefix w \<noteq> [] \<and> starts_with (ev_key event) (wh_filter_prefix w) then ops
      else if \<not> starts_with (ev_key event) (wh_prefix w @ ''/'') then ops
      else
        (case ev_type event of
           PUT \<Rightarrow>
             ops @ [op_t_Put (erase_head_copy (ev_key event) (length (wh_prefix w)))
                      (ev_value event) (word_of_int (ev_mod_revision event))]
         | DELETE \<Rightarrow>
             ops @ [op_t_Del (erase_head_copy (ev_key event) (length (wh_prefix w)))
                      (word_of_int (ev_mod_revision event))]
         | OtherEventType _ \<Rightarrow> ops))"

fun handle_events :: "EtcdWatchHandler \<Rightarrow> Event list \<Rightarrow> op_t list \<Rightarrow> op_t list" where
  "handle_events w [] ops = ops"
| "handle_events w (event # evs) ops = handle_events w evs (handle_event w event ops)"

text \<open>
  \<^verbatim>\<open>EtcdWatchHandler::operator()\<close>: the arguments of the one callback it posts,
  \<^verbatim>\<open>callback_(status, ops, resp.index())\<close>.
\<close>

definition EtcdWatchHandler_call ::
  "EtcdWatchHandler \<Rightarrow> Response \<Rightarrow> Status \<times> op_t list \<times> unsigned" where
  "EtcdWatchHandler_call w resp =
     (Status_EtcdError (error_code resp) (error_message resp),
      handle_events w (events resp) [],
      word_of_int (index resp))"

text \<open>
  \<^verbatim>\<open>requestUpdates\<close>: a one-shot watch from \<^verbatim>\<open>since_rev + 1\<close>, continued by a handler.
\<close>

definition requestUpdates ::
  "etcd_server \<Rightarrow> string \<Rightarrow> string \<Rightarrow> string \<Rightarrow> unsigned \<Rightarrow> etcd_entry list
     \<Rightarrow> etcd_entry list \<times> (Status \<times> op_t list \<times> unsigned)" where
  "requestUpdates srv this_prefix meta_sync_lock prefix since_rev h =
     (case etcd_request srv (Watch (this_prefix @ prefix) (since_rev + 1) True) Async h of
        (resp, h') \<Rightarrow>
          (h', EtcdWatchHandler_call
                 \<lparr>wh_prefix = this_prefix, wh_filter_prefix = this_prefix @ meta_sync_lock\<rparr>
                 resp))"

text \<open>
  The loop of \<^verbatim>\<open>requestAll\<close> over the returned keys (lines 181-194); \<open>rv\<close> is
  \<^verbatim>\<open>resp.index()\<close>.
\<close>

fun ls_loop :: "string \<Rightarrow> unsigned \<Rightarrow> (string \<times> string) list \<Rightarrow> op_t list \<Rightarrow> op_t list" where
  "ls_loop this_prefix rv [] ops = ops"
| "ls_loop this_prefix rv ((k, v) # kvs) ops =
     (if k = [] then ls_loop this_prefix rv kvs ops
      else if \<not> starts_with k (this_prefix @ ''/'') then ls_loop this_prefix rv kvs ops
      else ls_loop this_prefix rv kvs
             (ops @ [op_t_Put (erase_head_copy k (length this_prefix)) v rv]))"

text \<open>
  \<^verbatim>\<open>requestAll\<close>. Line 180 declares \<^verbatim>\<open>std::vector<op_t> ops(resp.keys().size())\<close>: the vector
  starts with one default-constructed record per returned key (tag \<open>t\<close>, revision \<open>r\<close>), and
  the loop appends to it. \<^verbatim>\<open>base_rev\<close> is an argument as in the source.
\<close>

definition requestAll ::
  "etcd_server \<Rightarrow> string \<Rightarrow> op_type_t \<Rightarrow> unsigned \<Rightarrow> string \<Rightarrow> unsigned \<Rightarrow> etcd_entry list
     \<Rightarrow> etcd_entry list \<times> (Status \<times> op_t list \<times> unsigned)" where
  "requestAll srv this_prefix t r prefix base_rev h =
     (case etcd_request srv (Ls (this_prefix @ prefix)) Async h of
        (resp, h') \<Rightarrow>
          (h', (Status_EtcdError (error_code resp) (error_message resp),
                ls_loop this_prefix (word_of_int (index resp)) (keys_values resp)
                  (replicate (length (keys_values resp)) (op_t_default t r)),
                word_of_int (index resp))))"

text \<open>
  The record the watch handler is to emit for one event: none for a key under a non-empty
  sync-lock prefix or outside \<^verbatim>\<open>prefix + "/"\<close>, a Put or a Del with the prefix stripped for a
  PUT or a DELETE event, none for any other event type.
\<close>

definition watch_record :: "string \<Rightarrow> string \<Rightarrow> Event \<Rightarrow> op_t option" where
  "watch_record prefix sync_lock_prefix event =
     (if (sync_lock_prefix \<noteq> [] \<and> starts_with (ev_key event) sync_lock_prefix)
         \<or> \<not> starts_with (ev_key event) (prefix @ ''/'')
      then None
      else
        (case ev_type event of
           PUT \<Rightarrow> Some (op_t_Put (drop (length prefix) (ev_key event)) (ev_value event)
                          (word_of_int (ev_mod_revision event)))
         | DELETE \<Rightarrow> Some (op_t_Del (drop (length prefix) (ev_key event))
                              (word_of_int (ev_mod_revision event)))
         | OtherEventType _ \<Rightarrow> None))"

text \<open>The Put record a snapshot is to hold for one returned key, if the key passes the filter.\<close>

definition snapshot_record :: "string \<Rightarrow> unsigned \<Rightarrow> string \<times> string \<Rightarrow> op_t option" where
  "snapshot_record prefix rv kv0 =
     (if starts_with (fst kv0) (prefix @ ''/'')
      then Some (op_t_Put (drop (length prefix) (fst kv0)) (snd kv0) rv)
      else None)"

subsection \<open>The daemon watch and Stop\<close>

text \<open>
  An \<^verbatim>\<open>etcd::Watcher\<close> as \<^verbatim>\<open>startDaemonWatch\<close> builds it: the watched key, the first revision
  to deliver, the handler, the recursive flag, the \<^verbatim>\<open>prefix\<close> captured by the callback given
  to \<^verbatim>\<open>Wait\<close>, and whether \<^verbatim>\<open>Cancel\<close> has taken effect.
\<close>

record Watcher =
  w_key :: string
  w_fromIndex :: unsigned
  w_handler :: EtcdWatchHandler
  w_recursive :: bool
  w_wait_prefix :: string
  w_cancelled :: bool

text \<open>
  The \<^verbatim>\<open>asio::steady_timer\<close> of \<^verbatim>\<open>retryDaeminWatch\<close>: its expiry in seconds, the \<^verbatim>\<open>prefix\<close>
  and \<^verbatim>\<open>since_rev\<close> captured by its wait handler, and whether the wait is still pending.
\<close>

record steady_timer =
  t_seconds :: nat
  t_prefix :: string
  t_since_rev :: unsigned
  t_pending :: bool

text \<open>The calls made on the child process \<^verbatim>\<open>etcd_proc_\<close>.\<close>

datatype proc_call = proc_terminate | proc_kill_SIGTERM | proc_wait

text \<open>
  The members of \<^verbatim>\<open>EtcdMetaService\<close> the daemon watch and \<^verbatim>\<open>Stop\<close> use: \<^verbatim>\<open>prefix_\<close>,
  \<^verbatim>\<open>meta_sync_lock_\<close>, \<^verbatim>\<open>rev_\<close>, \<^verbatim>\<open>watcher_\<close>, \<^verbatim>\<open>backoff_timer_\<close> and \<^verbatim>\<open>etcd_proc_\<close> (a null
  pointer is \<open>None\<close>).
\<close>

record EtcdMetaService =
  ms_prefix :: string
  ms_meta_sync_lock :: string
  ms_rev :: unsigned
  ms_watcher :: "Watcher option"
  ms_backoff_timer :: "steady_timer option"
  ms_etcd_proc :: "proc_call list option"

definition BACKOFF_RETRY_TIME :: nat where
  "BACKOFF_RETRY_TIME = 10"

definition retryDaeminWatch :: "string \<Rightarrow> unsigned \<Rightarrow> EtcdMetaService \<Rightarrow> EtcdMetaService" where
  "retryDaeminWatch prefix since_rev s =
     s\<lparr>ms_backoff_timer :=
         Some \<lparr>t_seconds = BACKOFF_RETRY_TIME, t_prefix = prefix, t_since_rev = since_rev,
               t_pending = True\<rparr>\<rparr>"

text \<open>
  \<^verbatim>\<open>startDaemonWatch\<close>. Whether the \<^verbatim>\<open>etcd::Watcher\<close> constructor throws
  \<^verbatim>\<open>std::runtime_error\<close> is decided by the environment; when it does, \<^verbatim>\<open>watcher_\<close> keeps its
  old value and the \<^verbatim>\<open>catch\<close> block retries.
\<close>

definition startDaemonWatch ::
  "bool \<Rightarrow> string \<Rightarrow> unsigned \<Rightarrow> EtcdMetaService \<Rightarrow> EtcdMetaService" where
  "startDaemonWatch ctor_throws prefix since_rev s =
     (if \<not> ctor_throws then
        s\<lparr>ms_watcher :=
            Some \<lparr>w_key = ms_prefix s @ prefix, w_fromIndex = since_rev + 1,
                  w_handler = \<lparr>wh_prefix = ms_prefix s,
                               wh_filter_prefix = ms_prefix s @ ms_meta_sync_lock s\<rparr>,
                  w_recursive = True, w_wait_prefix = prefix, w_cancelled = False\<rparr>\<rparr>
      else retryDaeminWatch prefix since_rev s)"

text \<open>The callback given to \<^verbatim>\<open>watcher_->Wait\<close> (lines 220-225).\<close>

definition wait_callback :: "string \<Rightarrow> bool \<Rightarrow> EtcdMetaService \<Rightarrow> EtcdMetaService" where
  "wait_callback prefix cancalled s =
     (if cancalled then s else retryDaeminWatch prefix (ms_rev s) s)"

text \<open>
  The wait handler of the backoff timer (lines 237-245): the error code is logged and the
  retry is made in either case.
\<close>

definition backoff_handler ::
  "bool \<Rightarrow> string \<Rightarrow> unsigned \<Rightarrow> bool \<Rightarrow> EtcdMetaService \<Rightarrow> EtcdMetaService" where
  "backoff_handler ctor_throws prefix since_rev error s =
     startDaemonWatch ctor_throws prefix since_rev s"

text \<open>
  The pending wait of the backoff timer completes (with or without an error code) and its
  handler runs; \<open>None\<close> when no wait is pending.
\<close>

definition backoff_timer_fires ::
  "bool \<Rightarrow> bool \<Rightarrow> EtcdMetaService \<Rightarrow> EtcdMetaService option" where
  "backoff_timer_fires error ctor_throws s =
     (case ms_backoff_timer s of
        None \<Rightarrow> None
      | Some t \<Rightarrow>
          if \<not> t_pending t then None
          else Some (backoff_handler ctor_throws (t_prefix t) (t_since_rev t) error
                       (s\<lparr>ms_backoff_timer := Some (t\<lparr>t_pending := False\<rparr>)\<rparr>)))"

definition timer_pending :: "EtcdMetaService \<Rightarrow> bool" where
  "timer_pending s = (case ms_backoff_timer s of None \<Rightarrow> False | Some t \<Rightarrow> t_pending t)"

text \<open>
  \<^verbatim>\<open>watcher_->Cancel()\<close> either throws (\<open>Inl\<close>) or cancels the subscription; which one is
  decided by the environment.
\<close>

definition Watcher_Cancel :: "bool \<Rightarrow> Watcher \<Rightarrow> unit + Watcher" where
  "Watcher_Cancel throws w = (if throws then Inl () else Inr (w\<lparr>w_cancelled := True\<rparr>))"

text \<open>
  \<^verbatim>\<open>Stop\<close> (lines 127-139 of the header): \<^verbatim>\<open>catch (...)\<close> swallows whatever \<^verbatim>\<open>Cancel\<close> throws;
  the child, when there is one, gets \<^verbatim>\<open>terminate\<close>, \<^verbatim>\<open>kill(SIGTERM)\<close> and \<^verbatim>\<open>wait\<close>.
\<close>

definition Stop :: "bool \<Rightarrow> EtcdMetaService \<Rightarrow> EtcdMetaService" where
  "Stop cancel_throws s =
     (let s1 = (case ms_watcher s of
                  None \<Rightarrow> s
                | Some w \<Rightarrow>
                    (case Watcher_Cancel cancel_throws w of
                       Inl _ \<Rightarrow> s
                     | Inr w' \<Rightarrow> s\<lparr>ms_watcher := Some w'\<rparr>))
      in (case ms_etcd_proc s1 of
            None \<Rightarrow> s1
          | Some calls \<Rightarrow>
              s1\<lparr>ms_etcd_proc := Some (calls @ [proc_terminate, proc_kill_SIGTERM, proc_wait])\<rparr>))"

text \<open>
  What the daemon watch can do by itself once started: the watch ends and the callback given
  to \<^verbatim>\<open>Wait\<close> runs, with \<^verbatim>\<open>cancalled\<close> true exactly when \<^verbatim>\<open>Cancel\<close> took effect on that watcher
  (the library's contract for \<^verbatim>\<open>Wait\<close>), or the pending wait of the backoff timer completes.
\<close>

datatype dw_event = WatchEnds | TimerFires bool bool

fun dw_step :: "dw_event \<Rightarrow> EtcdMetaService \<Rightarrow> EtcdMetaService option" where
  "dw_step WatchEnds s =
     (case ms_watcher s of
        None \<Rightarrow> None
      | Some w \<Rightarrow> Some (wait_callback (w_wait_prefix w) (w_cancelled w) s))"
| "dw_step (TimerFires error ctor_throws) s = backoff_timer_fires error ctor_throws s"

fun dw_run :: "dw_event list \<Rightarrow> EtcdMetaService \<Rightarrow> EtcdMetaService option" where
  "dw_run [] s = Some s"
| "dw_run (ev # evs) s = (case dw_step ev s of None \<Rightarrow> None | Some s' \<Rightarrow> dw_run evs s')"

definition watch_cancelled :: "EtcdMetaService \<Rightarrow> bool" where
  "watch_cancelled s = (case ms_watcher s of None \<Rightarrow> True | Some w \<Rightarrow> w_cancelled w)"

subsection \<open>Concrete backing stores and inputs\<close>

text \<open>A store that accepts every request; the revision grows with each request.\<close>

definition ok_server :: etcd_server where
  "ok_server h c =
     \<lparr>error_code = 0, error_message = [], index = int (length h) + 1, events = [],
      keys_values = [], lock_key = (case c of Lock n \<Rightarrow> n @ ''#1'' | _ \<Rightarrow> [])\<rparr>"

text \<open>A store that rejects the request it receives after \<open>n\<close> earlier ones.\<close>

definition failing_at :: "nat \<Rightarrow> etcd_server" where
  "failing_at n h c =
     (if length h = n
      then \<lparr>error_code = 14, error_message = ''unavailable'', index = int (length h),
            events = [], keys_values = [], lock_key = []\<rparr>
      else ok_server h c)"

text \<open>A store whose listing returns the given keys and values at revision \<open>rv\<close>.\<close>

definition snapshot_server :: "(string \<times> string) list \<Rightarrow> int \<Rightarrow> etcd_server" where
  "snapshot_server kvs rv h c =
     \<lparr>error_code = 0, error_message = [], index = rv, events = [],
      keys_values = kvs, lock_key = []\<rparr>"

text \<open>\<open>n\<close> Put changes with distinct keys.\<close>

definition puts :: "nat \<Rightarrow> op_t list" where
  "puts n = map (\<lambda>i. op_t_Put (''/k'' @ replicate i CHR ''x'') ''v'' 0) [0..<n]"

text \<open>
  A service with prefix \<^verbatim>\<open>/vineyard\<close> at revision 41 that owns an etcd child process and
  has neither a watcher nor a backoff timer yet.
\<close>

definition idle_service :: EtcdMetaService where
  "idle_service =
     \<lparr>ms_prefix = ''/vineyard'', ms_meta_sync_lock = ''/meta_sync_lock'', ms_rev = 41,
      ms_watcher = None, ms_backoff_timer = None, ms_etcd_proc = Some []\<rparr>"

text \<open>The two runs of \<^verbatim>\<open>commitUpdates\<close> on 300 changes used below.\<close>

definition run_300_ok :: "etcd_entry list \<times> (Status \<times> unsigned) list" where
  "run_300_ok = commitUpdates ok_server ''/vineyard'' (puts 300) []"

definition run_300_failing :: "etcd_entry list \<times> (Status \<times> unsigned) list" where
  "run_300_failing = commitUpdates (failing_at 1) ''/vineyard'' (puts 300) []"

text \<open>A lock handle as \<^verbatim>\<open>requestLock\<close> returns it from the accepting store.\<close>

definition granted_lock :: "etcd_entry list \<times> Status \<times> EtcdLock" where
  "granted_lock = requestLock ok_server ''/vineyard'' ''/lock'' ''frame0'' []"

text \<open>A watch response with five events.\<close>

definition five_events :: Response where
  "five_events =
     \<lparr>error_code = 0, error_message = [], index = 9,
      events =
        [\<lparr>ev_type = PUT, ev_key = ''/vineyard/a'', ev_value = ''1'', ev_mod_revision = 5\<rparr>,
         \<lparr>ev_type = PUT, ev_key = ''/vineyard/meta_sync_lock/x'', ev_value = ''2'',
           ev_mod_revision = 6\<rparr>,
         \<lparr>ev_type = DELETE, ev_key = ''/vineyard/b'', ev_value = [], ev_mod_revision = 7\<rparr>,
         \<lparr>ev_type = PUT, ev_key = ''/other/c'', ev_value = ''3'', ev_mod_revision = 8\<rparr>,
         \<lparr>ev_type = OtherEventType 2, ev_key = ''/vineyard/d'', ev_value = ''4'',
           ev_mod_revision = 9\<rparr>],
      keys_values = [], lock_key = []\<rparr>"

section \<open>Properties\<close>

subsection \<open>The lock handle\<close>

lemma Release_released:
  "released l \<Longrightarrow> Release l rv h = (Invalid ''double unlock'', rv, l, h)"
  by (simp add: Release_def)

lemma Release_unlock_closure:
  "callback l = unlock_closure srv lk \<Longrightarrow> \<not> released l \<Longrightarrow>
   Release l rv h =
     (Status_EtcdError (error_code (srv h (Unlock lk))) (error_message (srv h (Unlock lk))),
      (if is_ok (srv h (Unlock lk)) then word_of_int (index (srv h (Unlock lk))) else rv),
      l\<lparr>released := True\<rparr>,
      h @ [\<lparr>e_call = Unlock lk, e_mode = Sync, e_resp = srv h (Unlock lk)\<rparr>])"
  by (simp add: Release_def unlock_closure_def etcd_request_def Let_def)

lemma Release_calls_released:
  "released l \<Longrightarrow>
   Release_calls rvs l h = (map (\<lambda>x. (Invalid ''double unlock'', x)) rvs, l, h)"
  by (induction rvs) (simp_all add: Release_released)

lemma requestLock_handle:
  assumes "requestLock srv this_prefix lock_name tb h0 = (h1, st, l)"
  shows "callback l = unlock_closure srv (lock_key (srv h0 (Lock (this_prefix @ lock_name))))"
    and "\<not> released l"
  using assms by (auto simp: requestLock_def etcd_request_def Let_def EtcdLock_new_def)

lemma lock_steps_snoc:
  "lock_steps (as @ [a]) s =
     (case lock_steps as s of None \<Rightarrow> None | Some s' \<Rightarrow> lock_step a s')"
  by (induction as arbitrary: s) (simp_all split: option.splits)

lemma lock_step_inv:
  assumes "lock_inv srv lk h called s" "lock_step a s = Some s'"
  shows "lock_inv srv lk h (called \<or> is_CallRelease a) s'"
proof (cases "released (lr_lock s)")
  case True
  with assms show ?thesis
    by (cases a) (auto simp: lock_inv_def Release_released split: if_splits)
next
  case False
  with assms show ?thesis
    by (cases a) (auto simp: lock_inv_def Release_unlock_closure split: if_splits)
qed

lemma lock_steps_inv:
  assumes "lock_inv srv lk h False s0"
  shows "lock_steps sched s0 = Some s \<Longrightarrow>
         lock_inv srv lk h (\<exists>a\<in>set sched. is_CallRelease a) s"
proof (induction sched arbitrary: s rule: rev_induct)
  case Nil
  with assms show ?case by simp
next
  case (snoc a as)
  then obtain s1 where s1: "lock_steps as s0 = Some s1" and st: "lock_step a s1 = Some s"
    by (auto simp: lock_steps_snoc split: option.splits)
  from lock_step_inv [OF snoc.IH [OF s1] st] show ?case
    by (simp add: disj_commute)
qed

lemma unlock_count_snoc:
  "unlock_count (h @ [\<lparr>e_call = Unlock lk, e_mode = m, e_resp = r\<rparr>]) = unlock_count h + 1"
  by (simp add: unlock_count_def)

text \<open>
  Claim C1. For a handle returned by \<^verbatim>\<open>requestLock\<close> and any interleaving of explicit
  \<^verbatim>\<open>Release\<close> calls with the two steps of the destructor, the backing store receives at most
  one unlock request, and it has received exactly one if and only if \<^verbatim>\<open>Release\<close> was called at
  least once or the handle was destroyed without an explicit release.
\<close>

theorem EtcdLock_unlock_once:
  assumes req: "requestLock srv this_prefix lock_name tb h0 = (h1, st, l)"
    and run: "lock_steps sched \<lparr>lr_lock = l, lr_etcd = h, lr_dtor = Alive\<rparr> = Some s"
  shows "unlock_count h \<le> unlock_count (lr_etcd s) \<and>
         unlock_count (lr_etcd s) \<le> unlock_count h + 1 \<and>
         (unlock_count (lr_etcd s) = unlock_count h + 1 \<longleftrightarrow>
            (\<exists>a\<in>set sched. is_CallRelease a) \<or>
            (lr_dtor s = Destroyed \<and> \<not> (\<exists>a\<in>set sched. is_CallRelease a)))"
proof -
  define lk where "lk = lock_key (srv h0 (Lock (this_prefix @ lock_name)))"
  from requestLock_handle [OF req]
  have "lock_inv srv lk h False \<lparr>lr_lock = l, lr_etcd = h, lr_dtor = Alive\<rparr>"
    by (simp add: lock_inv_def lk_def)
  from lock_steps_inv [OF this run]
  have inv: "lock_inv srv lk h (\<exists>a\<in>set sched. is_CallRelease a) s" .
  show ?thesis
  proof (cases "released (lr_lock s)")
    case True
    with inv show ?thesis
      by (auto simp: lock_inv_def unlock_count_snoc)
  next
    case False
    with inv show ?thesis
      by (auto simp: lock_inv_def)
  qed
qed

lemma granted_lock_eval:
  "granted_lock =
     ([\<lparr>e_call = Lock ''/vineyard/lock'', e_mode = Async,
        e_resp = ok_server [] (Lock ''/vineyard/lock'')\<rparr>],
      OK, EtcdLock_new ''frame0'' (unlock_closure ok_server ''/vineyard/lock#1'') 1)"
  by (simp add: granted_lock_def requestLock_def etcd_request_def Let_def ok_server_def
        Status_EtcdError_def)

text \<open>
  C1 on a run where the destructor's load is overtaken by an explicit release: the handle
  ends destroyed and the store has received one unlock.
\<close>

theorem EtcdLock_unlock_once_witness:
  "\<exists>s. lock_steps [DtorLoad, CallRelease 5, DtorRelease]
          \<lparr>lr_lock = snd (snd granted_lock), lr_etcd = fst granted_lock, lr_dtor = Alive\<rparr>
          = Some s \<and>
       lr_dtor s = Destroyed \<and>
       unlock_count (fst granted_lock) = 0 \<and> unlock_count (lr_etcd s) = 1"
proof -
  have req: "requestLock ok_server ''/vineyard'' ''/lock'' ''frame0'' [] =
               (fst granted_lock, fst (snd granted_lock), snd (snd granted_lock))"
    by (simp add: granted_lock_def)
  have "\<exists>s. lock_steps [DtorLoad, CallRelease 5, DtorRelease]
          \<lparr>lr_lock = snd (snd granted_lock), lr_etcd = fst granted_lock, lr_dtor = Alive\<rparr>
          = Some s \<and> lr_dtor s = Destroyed"
    by (simp add: granted_lock_eval EtcdLock_new_def Release_def unlock_closure_def
          etcd_request_def Let_def)
  then obtain s where run: "lock_steps [DtorLoad, CallRelease 5, DtorRelease]
          \<lparr>lr_lock = snd (snd granted_lock), lr_etcd = fst granted_lock, lr_dtor = Alive\<rparr>
          = Some s"
    and d: "lr_dtor s = Destroyed"
    by blast
  have zero: "unlock_count (fst granted_lock) = 0"
    by (simp add: granted_lock_eval unlock_count_def)
  from EtcdLock_unlock_once [OF req run] zero have "unlock_count (lr_etcd s) = 1"
    by simp
  with run d zero show ?thesis by blast
qed

text \<open>
  Claim C2. On a handle returned by \<^verbatim>\<open>requestLock\<close>, the first call of \<^verbatim>\<open>Release\<close> runs the
  stored closure: one synchronous unlock of the handle's lock key reaches the backing
  store, the out-parameter receives the response's revision when the response is ok and
  keeps its value otherwise, and the returned status is OK or the store's error. Every
  later call returns \<^verbatim>\<open>Invalid("double unlock")\<close>, leaves its out-parameter alone and sends
  nothing to the backing store.
\<close>

theorem Release_first_then_double_unlock:
  assumes req: "requestLock srv this_prefix lock_name tb h0 = (h1, st, l)"
  shows "Release_calls (rv # rvs) l h =
           (let lk = lock_key (srv h0 (Lock (this_prefix @ lock_name)));
                r = srv h (Unlock lk)
            in ((Status_EtcdError (error_code r) (error_message r),
                 (if is_ok r then word_of_int (index r) else rv))
                # map (\<lambda>x. (Invalid ''double unlock'', x)) rvs,
                l\<lparr>released := True\<rparr>,
                h @ [\<lparr>e_call = Unlock lk, e_mode = Sync, e_resp = r\<rparr>]))"
proof -
  note l = requestLock_handle [OF req]
  have "released (l\<lparr>released := True\<rparr>)" by simp
  from Release_calls_released [OF this] show ?thesis
    by (simp add: Release_unlock_closure [OF l] Let_def)
qed

text \<open>C2 on three calls in a row: OK with the unlock's revision, then two double unlocks.\<close>

theorem Release_first_then_double_unlock_witness:
  "requestLock ok_server ''/vineyard'' ''/lock'' ''frame0'' [] =
     (fst granted_lock, fst (snd granted_lock), snd (snd granted_lock)) \<and>
   fst (Release_calls [7, 8, 9] (snd (snd granted_lock)) (fst granted_lock)) =
     [(OK, 2), (Invalid ''double unlock'', 8), (Invalid ''double unlock'', 9)] \<and>
   length (snd (snd (Release_calls [7, 8, 9] (snd (snd granted_lock)) (fst granted_lock)))) =
     length (fst granted_lock) + 1"
proof -
  have req: "requestLock ok_server ''/vineyard'' ''/lock'' ''frame0'' [] =
               (fst granted_lock, fst (snd granted_lock), snd (snd granted_lock))"
    by (simp add: granted_lock_def)
  show ?thesis
    using Release_first_then_double_unlock [OF req, of 7 "[8, 9]" "fst granted_lock"]
    by (simp add: req Let_def ok_server_def Status_EtcdError_def is_ok_def granted_lock_eval)
qed

subsection \<open>commitUpdates\<close>

lemma commit_loop_Inr:
  "commit_loop srv p cs (127 * k) h = Inr (off', h') \<Longrightarrow>
   \<exists>es. h' = h @ es \<and> off' = 127 * (k + length es) \<and> \<not> off' + 127 < length cs \<and>
        (es \<noteq> [] \<longrightarrow> off' < length cs) \<and>
        (\<forall>j<length es. e_call (es ! j) = chunk_tx p cs (k + j) \<and> e_mode (es ! j) = Sync \<and>
                       is_ok (e_resp (es ! j)))"
proof (induction "length cs - 127 * k" arbitrary: k h rule: less_induct)
  case less
  show ?case
  proof (cases "127 * k + 127 < length cs")
    case False
    with less.prems show ?thesis
      by (simp add: commit_loop.simps)
  next
    case True
    define e where "e = \<lparr>e_call = chunk_tx p cs k, e_mode = Sync,
                         e_resp = srv h (chunk_tx p cs k)\<rparr>"
    have S: "127 * k + 127 = 127 * Suc k" by simp
    from True less.prems have ok: "is_ok (e_resp e)"
      and rec0: "commit_loop srv p cs (127 * k + 127) (h @ [e]) = Inr (off', h')"
      by (auto simp: commit_loop.simps [of srv p cs "127 * k"] etcd_request_def Let_def
            chunk_tx_def e_def split: if_splits)
    from rec0 have rec: "commit_loop srv p cs (127 * Suc k) (h @ [e]) = Inr (off', h')"
      unfolding S .
    from True have "length cs - 127 * Suc k < length cs - 127 * k" by simp
    from less.hyps [OF this rec] obtain es where es:
      "h' = (h @ [e]) @ es" "off' = 127 * (Suc k + length es)" "\<not> off' + 127 < length cs"
      "es \<noteq> [] \<longrightarrow> off' < length cs"
      "\<forall>j<length es. e_call (es ! j) = chunk_tx p cs (Suc k + j) \<and> e_mode (es ! j) = Sync \<and>
                       is_ok (e_resp (es ! j))"
      by blast
    have "\<forall>j<length (e # es). e_call ((e # es) ! j) = chunk_tx p cs (k + j) \<and>
            e_mode ((e # es) ! j) = Sync \<and> is_ok (e_resp ((e # es) ! j))"
    proof (intro allI impI)
      fix j assume "j < length (e # es)"
      then show "e_call ((e # es) ! j) = chunk_tx p cs (k + j) \<and>
            e_mode ((e # es) ! j) = Sync \<and> is_ok (e_resp ((e # es) ! j))"
        using es(5) ok by (cases j) (simp_all add: e_def)
    qed
    moreover have "off' < length cs" using es(2,4) True by (cases es) simp_all
    ultimately show ?thesis
      using es(1,2,3) by (intro exI [of _ "e # es"]) simp
  qed
qed

lemma commit_loop_Inl:
  "commit_loop srv p cs (127 * k) h = Inl (h', posted) \<Longrightarrow>
   \<exists>es e. h' = h @ es @ [e] \<and> 127 * (k + length es) + 127 < length cs \<and>
        (\<forall>j<length es. e_call (es ! j) = chunk_tx p cs (k + j) \<and> e_mode (es ! j) = Sync \<and>
                       is_ok (e_resp (es ! j))) \<and>
        e_call e = chunk_tx p cs (k + length es) \<and> e_mode e = Sync \<and> \<not> is_ok (e_resp e) \<and>
        posted = post_of (e_resp e)"
proof (induction "length cs - 127 * k" arbitrary: k h rule: less_induct)
  case less
  show ?case
  proof (cases "127 * k + 127 < length cs")
    case False
    with less.prems show ?thesis
      by (simp add: commit_loop.simps)
  next
    case True
    define e where "e = \<lparr>e_call = chunk_tx p cs k, e_mode = Sync,
                         e_resp = srv h (chunk_tx p cs k)\<rparr>"
    show ?thesis
    proof (cases "is_ok (e_resp e)")
      case False
      with True less.prems have "h' = h @ [] @ [e]" "posted = post_of (e_resp e)"
        by (auto simp: commit_loop.simps [of srv p cs "127 * k"] etcd_request_def Let_def
            chunk_tx_def e_def split: if_splits)
      with False True show ?thesis
        by (intro exI [of _ "[]"] exI [of _ e]) (simp add: e_def)
    next
      case ok: True
      have S: "127 * k + 127 = 127 * Suc k" by simp
      from ok True less.prems
      have rec0: "commit_loop srv p cs (127 * k + 127) (h @ [e]) = Inl (h', posted)"
        by (auto simp: commit_loop.simps [of srv p cs "127 * k"] etcd_request_def Let_def
            chunk_tx_def e_def split: if_splits)
      from rec0 have rec: "commit_loop srv p cs (127 * Suc k) (h @ [e]) = Inl (h', posted)"
        unfolding S .
      from True have "length cs - 127 * Suc k < length cs - 127 * k" by simp
      from less.hyps [OF this rec] obtain es e' where es:
        "h' = (h @ [e]) @ es @ [e']" "127 * (Suc k + length es) + 127 < length cs"
        "\<forall>j<length es. e_call (es ! j) = chunk_tx p cs (Suc k + j) \<and> e_mode (es ! j) = Sync \<and>
                       is_ok (e_resp (es ! j))"
        "e_call e' = chunk_tx p cs (Suc k + length es)" "e_mode e' = Sync"
        "\<not> is_ok (e_resp e')" "posted = post_of (e_resp e')"
        by blast
      have "\<forall>j<length (e # es). e_call ((e # es) ! j) = chunk_tx p cs (k + j) \<and>
            e_mode ((e # es) ! j) = Sync \<and> is_ok (e_resp ((e # es) ! j))"
      proof (intro allI impI)
        fix j assume "j < length (e # es)"
        then show "e_call ((e # es) ! j) = chunk_tx p cs (k + j) \<and>
            e_mode ((e # es) ! j) = Sync \<and> is_ok (e_resp ((e # es) ! j))"
          using es(3) ok by (cases j) (simp_all add: e_def)
      qed
      then show ?thesis
        using es(1,2,4,5,6,7) by (intro exI [of _ "e # es"] exI [of _ e']) simp
    qed
  qed
qed

lemma length_setup_all: "length (setup_all p cs) \<le> length cs"
  by (induction cs) (simp_all add: setup_op_def)

lemma in_set_nthE:
  assumes "e \<in> set es" "\<forall>j<length es. P (es ! j)"
  shows "P e"
  using assms by (auto simp: in_set_conv_nth)

lemma length_puts: "length (puts n) = n"
  by (simp add: puts_def)

text \<open>
  Claim C3, as stated, at the empty change list: one (empty) transaction is issued, while
  the ceiling of 0 / 127 is 0.
\<close>

theorem commitUpdates_empty_issues_one_txn:
  "map e_call (fst (commitUpdates ok_server ''/vineyard'' [] [])) = [Txn []] \<and>
   (length ([] :: op_t list) + 126) div 127 = 0"
  by (simp add: commitUpdates_def commit_loop.simps etcd_request_def Let_def)

text \<open>A transaction holds one operation for each change, in the order of the changes.\<close>

lemma setup_all_map:
  "setup_all p cs =
     map (\<lambda>c. if op c = kPut then setup_put (p @ kv_key (kv c)) (kv_value (kv c))
               else setup_delete (p @ kv_key (kv c))) cs"
proof (induction cs)
  case Nil
  show ?case by simp
next
  case (Cons c cs)
  have "op c = kPut \<or> op c = kDel" by (cases "op c") simp_all
  with Cons show ?case by (auto simp: setup_op_def)
qed

lemma commitUpdates_requests:
  assumes run: "commitUpdates srv p cs h = (h', posted)"
  shows "\<exists>new. h' = h @ new \<and>
           (\<forall>j<length new.
              e_call (new ! j) = Txn (setup_all p (take 127 (drop (127 * j) cs))) \<and>
              length (setup_all p (take 127 (drop (127 * j) cs))) \<le> 127) \<and>
           (\<forall>j<length new - 1. e_mode (new ! j) = Sync) \<and>
           ((\<forall>e\<in>set new. e_mode e = Sync \<longrightarrow> is_ok (e_resp e)) \<longrightarrow>
              length new = max 1 ((length cs + 126) div 127) \<and> e_mode (last new) = Async)"
proof (cases "commit_loop srv p cs 0 h")
  case (Inl a)
  obtain h1 post where a: "a = (h1, post)" by (cases a)
  from Inl a have "commit_loop srv p cs (127 * 0) h = Inl (h1, post)" by simp
  from commit_loop_Inl [OF this] obtain es e where es:
    "h1 = h @ es @ [e]"
    "\<forall>j<length es. e_call (es ! j) = chunk_tx p cs (0 + j) \<and> e_mode (es ! j) = Sync \<and>
                       is_ok (e_resp (es ! j))"
    "e_call e = chunk_tx p cs (0 + length es)" "e_mode e = Sync" "\<not> is_ok (e_resp e)"
    by blast
  from run Inl a have h': "h' = h @ (es @ [e])"
    by (simp add: commitUpdates_def es(1))
  have calls: "\<forall>j<length (es @ [e]).
              e_call ((es @ [e]) ! j) = Txn (setup_all p (take 127 (drop (127 * j) cs))) \<and>
              length (setup_all p (take 127 (drop (127 * j) cs))) \<le> 127"
  proof (intro allI impI conjI)
    fix j assume j: "j < length (es @ [e])"
    show "e_call ((es @ [e]) ! j) = Txn (setup_all p (take 127 (drop (127 * j) cs)))"
    proof (cases "j < length es")
      case True
      with es(2) show ?thesis by (simp add: nth_append chunk_tx_def)
    next
      case False
      with j have "j = length es" by simp
      then show ?thesis using es(3) by (simp add: chunk_tx_def)
    qed
    show "length (setup_all p (take 127 (drop (127 * j) cs))) \<le> 127"
      using length_setup_all [of p "take 127 (drop (127 * j) cs)"] by simp
  qed
  have modes: "\<forall>j<length (es @ [e]) - 1. e_mode ((es @ [e]) ! j) = Sync"
    using es(2) by (simp add: nth_append)
  have "\<not> (\<forall>x\<in>set (es @ [e]). e_mode x = Sync \<longrightarrow> is_ok (e_resp x))"
    using es(4,5) by auto
  with h' calls modes show ?thesis by blast
next
  case (Inr b)
  obtain off h1 where b: "b = (off, h1)" by (cases b)
  from Inr b have "commit_loop srv p cs (127 * 0) h = Inr (off, h1)" by simp
  from commit_loop_Inr [OF this] obtain es where es:
    "h1 = h @ es" "off = 127 * (0 + length es)" "\<not> off + 127 < length cs"
    "es \<noteq> [] \<longrightarrow> off < length cs"
    "\<forall>j<length es. e_call (es ! j) = chunk_tx p cs (0 + j) \<and> e_mode (es ! j) = Sync \<and>
                       is_ok (e_resp (es ! j))"
    by blast
  define e where "e = \<lparr>e_call = Txn (setup_all p (drop off cs)), e_mode = Async,
                       e_resp = srv h1 (Txn (setup_all p (drop off cs)))\<rparr>"
  from run Inr b have h': "h' = h @ (es @ [e])"
    by (simp add: commitUpdates_def es(1) etcd_request_def Let_def e_def)
  have last_chunk: "take 127 (drop off cs) = drop off cs"
    using es(3) by simp
  have calls: "\<forall>j<length (es @ [e]).
              e_call ((es @ [e]) ! j) = Txn (setup_all p (take 127 (drop (127 * j) cs))) \<and>
              length (setup_all p (take 127 (drop (127 * j) cs))) \<le> 127"
  proof (intro allI impI conjI)
    fix j assume j: "j < length (es @ [e])"
    show "e_call ((es @ [e]) ! j) = Txn (setup_all p (take 127 (drop (127 * j) cs)))"
    proof (cases "j < length es")
      case True
      with es(5) show ?thesis by (simp add: nth_append chunk_tx_def)
    next
      case False
      with j have "j = length es" by simp
      then show ?thesis using last_chunk es(2) by (simp add: e_def)
    qed
    show "length (setup_all p (take 127 (drop (127 * j) cs))) \<le> 127"
      using length_setup_all [of p "take 127 (drop (127 * j) cs)"] by simp
  qed
  have modes: "\<forall>j<length (es @ [e]) - 1. e_mode ((es @ [e]) ! j) = Sync"
    using es(5) by (simp add: nth_append)
  have count: "length (es @ [e]) = max 1 ((length cs + 126) div 127)"
  proof (cases "es = []")
    case True
    with es(2,3) show ?thesis by simp
  next
    case False
    with es(4) have "127 * length es < length cs" using es(2) by simp
    moreover from es(2,3) have "length cs \<le> 127 * length es + 127" by simp
    ultimately have "(length cs + 126) div 127 = length es + 1" by arith
    then show ?thesis by simp
  qed
  have "e_mode (last (es @ [e])) = Async" by (simp add: e_def)
  with h' calls modes count show ?thesis by blast
qed

text \<open>
  Claim C3, amended. Every request \<^verbatim>\<open>commitUpdates\<close> sends is a transaction; the \<open>j\<close>-th one
  holds, for each change of the \<open>j\<close>-th slice of 127 changes and in the order of the input,
  the put of the prefixed key and the value for a Put and the delete of the prefixed key for
  a Del, so at most 127 operations; all but the last request are awaited synchronously.
  When every synchronously awaited transaction succeeds, exactly max(1, ceil(N / 127))
  transactions are sent for N changes, and the last one is continued asynchronously.
\<close>

theorem commitUpdates_chunks:
  assumes run: "commitUpdates srv p cs h = (h', posted)"
  shows "\<exists>new. h' = h @ new \<and>
           (\<forall>j<length new.
              e_call (new ! j) = Txn (setup_all p (take 127 (drop (127 * j) cs))) \<and>
              e_call (new ! j) =
                Txn (map (\<lambda>c. if op c = kPut
                               then setup_put (p @ kv_key (kv c)) (kv_value (kv c))
                               else setup_delete (p @ kv_key (kv c)))
                       (take 127 (drop (127 * j) cs))) \<and>
              length (setup_all p (take 127 (drop (127 * j) cs))) \<le> 127) \<and>
           (\<forall>j<length new - 1. e_mode (new ! j) = Sync) \<and>
           ((\<forall>e\<in>set new. e_mode e = Sync \<longrightarrow> is_ok (e_resp e)) \<longrightarrow>
              length new = max 1 ((length cs + 126) div 127) \<and> e_mode (last new) = Async)"
proof -
  from commitUpdates_requests [OF run] obtain new where n:
    "h' = h @ new"
    "\<forall>j<length new.
              e_call (new ! j) = Txn (setup_all p (take 127 (drop (127 * j) cs))) \<and>
              length (setup_all p (take 127 (drop (127 * j) cs))) \<le> 127"
    "\<forall>j<length new - 1. e_mode (new ! j) = Sync"
    "(\<forall>e\<in>set new. e_mode e = Sync \<longrightarrow> is_ok (e_resp e)) \<longrightarrow>
              length new = max 1 ((length cs + 126) div 127) \<and> e_mode (last new) = Async"
    by blast
  have "\<forall>j<length new.
              e_call (new ! j) = Txn (setup_all p (take 127 (drop (127 * j) cs))) \<and>
              e_call (new ! j) =
                Txn (map (\<lambda>c. if op c = kPut
                               then setup_put (p @ kv_key (kv c)) (kv_value (kv c))
                               else setup_delete (p @ kv_key (kv c)))
                       (take 127 (drop (127 * j) cs))) \<and>
              length (setup_all p (take 127 (drop (127 * j) cs))) \<le> 127"
    using n(2) setup_all_map [of p] by simp
  with n(1,3,4) show ?thesis by blast
qed

lemma run_300_ok_eval:
  "run_300_ok =
     ([\<lparr>e_call = chunk_tx ''/vineyard'' (puts 300) 0, e_mode = Sync,
        e_resp = \<lparr>error_code = 0, error_message = [], index = 1, events = [],
                  keys_values = [], lock_key = []\<rparr>\<rparr>,
       \<lparr>e_call = chunk_tx ''/vineyard'' (puts 300) 1, e_mode = Sync,
        e_resp = \<lparr>error_code = 0, error_message = [], index = 2, events = [],
                  keys_values = [], lock_key = []\<rparr>\<rparr>,
       \<lparr>e_call = Txn (setup_all ''/vineyard'' (drop 254 (puts 300))), e_mode = Async,
        e_resp = \<lparr>error_code = 0, error_message = [], index = 3, events = [],
                  keys_values = [], lock_key = []\<rparr>\<rparr>],
      [(OK, 3)])"
  by (simp add: run_300_ok_def commitUpdates_def commit_loop.simps etcd_request_def Let_def
        length_puts ok_server_def is_ok_def post_of_def Status_EtcdError_def chunk_tx_def)

text \<open>
  C3 on 300 changes and an accepting store: three transactions of 127, 127 and 46
  operations, the last asynchronous; and on a Put and a Del, one transaction holding the put
  and the delete in that order.
\<close>

theorem commitUpdates_chunks_witness:
  "commitUpdates ok_server ''/vineyard'' (puts 300) [] = (fst run_300_ok, snd run_300_ok) \<and>
   map (\<lambda>e. (e_mode e, is_ok (e_resp e))) (fst run_300_ok) =
     [(Sync, True), (Sync, True), (Async, True)] \<and>
   length (fst run_300_ok) = max 1 ((length (puts 300) + 126) div 127) \<and>
   length (fst run_300_ok) = 3 \<and>
   map (\<lambda>e. case e_call e of Txn tx \<Rightarrow> length tx | _ \<Rightarrow> 0) (fst run_300_ok) =
     [127, 127, 46] \<and>
   map e_call (fst (commitUpdates ok_server ''/vineyard''
                      [op_t_Put ''/a'' ''1'' 0, op_t_Del ''/b'' 0] [])) =
     [Txn [setup_put ''/vineyard/a'' ''1'', setup_delete ''/vineyard/b'']]"
proof -
  have run: "commitUpdates ok_server ''/vineyard'' (puts 300) [] =
               (fst run_300_ok, snd run_300_ok)"
    by (simp add: run_300_ok_def)
  have modes: "map (\<lambda>e. (e_mode e, is_ok (e_resp e))) (fst run_300_ok) =
                 [(Sync, True), (Sync, True), (Async, True)]"
    by (simp add: run_300_ok_eval is_ok_def)
  have ok: "\<forall>e\<in>set (fst run_300_ok). e_mode e = Sync \<longrightarrow> is_ok (e_resp e)"
    by (simp add: run_300_ok_eval is_ok_def)
  from commitUpdates_chunks [OF run] ok
  have count: "length (fst run_300_ok) = max 1 ((length (puts 300) + 126) div 127)"
    by auto
  then have three: "length (fst run_300_ok) = 3"
    by (simp add: length_puts)
  have sizes: "map (\<lambda>e. case e_call e of Txn tx \<Rightarrow> length tx | _ \<Rightarrow> 0) (fst run_300_ok) =
                 [127, 127, 46]"
    by (simp add: run_300_ok_eval chunk_tx_def setup_all_map length_puts)
  have small: "map e_call (fst (commitUpdates ok_server ''/vineyard''
                      [op_t_Put ''/a'' ''1'' 0, op_t_Del ''/b'' 0] [])) =
     [Txn [setup_put ''/vineyard/a'' ''1'', setup_delete ''/vineyard/b'']]"
    by (simp add: commitUpdates_def commit_loop.simps etcd_request_def Let_def setup_op_def
          op_t_Put_def op_t_Del_def)
  from run modes count three sizes small show ?thesis
    by blast
qed

text \<open>
  Claim C4. When a synchronously awaited (non-final) transaction of \<^verbatim>\<open>commitUpdates\<close> fails,
  it is the last request the call sends: the requests before it are the earlier slices,
  each acknowledged by the store and followed by no compensating request, slices remain
  unsent, and exactly one callback is posted, with the status and the revision of the
  failed response.
\<close>

theorem commitUpdates_intermediate_failure:
  assumes run: "commitUpdates srv p cs h = (h', posted)"
    and e: "e \<in> set (drop (length h) h')" "e_mode e = Sync" "\<not> is_ok (e_resp e)"
  shows "\<exists>earlier. h' = h @ earlier @ [e] \<and>
           (\<forall>j<length earlier.
              e_call (earlier ! j) = Txn (setup_all p (take 127 (drop (127 * j) cs))) \<and>
              is_ok (e_resp (earlier ! j))) \<and>
           e_call e = Txn (setup_all p (take 127 (drop (127 * length earlier) cs))) \<and>
           127 * length earlier + 127 < length cs \<and>
           posted = [(Status_EtcdError (error_code (e_resp e)) (error_message (e_resp e)),
                      word_of_int (index (e_resp e)))]"
proof (cases "commit_loop srv p cs 0 h")
  case (Inl a)
  obtain h1 post where a: "a = (h1, post)" by (cases a)
  from Inl a have "commit_loop srv p cs (127 * 0) h = Inl (h1, post)" by simp
  from commit_loop_Inl [OF this] obtain es e' where es:
    "h1 = h @ es @ [e']" "127 * (0 + length es) + 127 < length cs"
    "\<forall>j<length es. e_call (es ! j) = chunk_tx p cs (0 + j) \<and> e_mode (es ! j) = Sync \<and>
                       is_ok (e_resp (es ! j))"
    "e_call e' = chunk_tx p cs (0 + length es)" "post = post_of (e_resp e')"
    by blast
  from run Inl a have h': "h' = h @ es @ [e']" and posted: "posted = [post]"
    by (simp_all add: commitUpdates_def es(1))
  have "e \<notin> set es"
  proof
    assume "e \<in> set es"
    from in_set_nthE [OF this, of "\<lambda>x. is_ok (e_resp x)"] es(3) e(3) show False by blast
  qed
  with e(1) h' have "e = e'" by simp
  with h' posted es show ?thesis
    by (intro exI [of _ es]) (simp add: chunk_tx_def post_of_def)
next
  case (Inr b)
  obtain off h1 where b: "b = (off, h1)" by (cases b)
  from Inr b have "commit_loop srv p cs (127 * 0) h = Inr (off, h1)" by simp
  from commit_loop_Inr [OF this] obtain es where es:
    "h1 = h @ es"
    "\<forall>j<length es. e_call (es ! j) = chunk_tx p cs (0 + j) \<and> e_mode (es ! j) = Sync \<and>
                       is_ok (e_resp (es ! j))"
    by blast
  define ef where "ef = \<lparr>e_call = Txn (setup_all p (drop off cs)), e_mode = Async,
                       e_resp = srv h1 (Txn (setup_all p (drop off cs)))\<rparr>"
  from run Inr b have h': "h' = h @ es @ [ef]"
    by (simp add: commitUpdates_def es(1) etcd_request_def Let_def ef_def)
  have "e \<notin> set es"
  proof
    assume "e \<in> set es"
    from in_set_nthE [OF this, of "\<lambda>x. is_ok (e_resp x)"] es(2) e(3) show False by blast
  qed
  with e(1) h' have "e = ef" by simp
  with e(2) show ?thesis by (simp add: ef_def)
qed

lemma run_300_failing_eval:
  "run_300_failing =
     ([\<lparr>e_call = chunk_tx ''/vineyard'' (puts 300) 0, e_mode = Sync,
        e_resp = \<lparr>error_code = 0, error_message = [], index = 1, events = [],
                  keys_values = [], lock_key = []\<rparr>\<rparr>,
       \<lparr>e_call = chunk_tx ''/vineyard'' (puts 300) 1, e_mode = Sync,
        e_resp = \<lparr>error_code = 14, error_message = ''unavailable'', index = 1, events = [],
                  keys_values = [], lock_key = []\<rparr>\<rparr>],
      [(EtcdError 14 ''unavailable'', 1)])"
  by (simp add: run_300_failing_def commitUpdates_def commit_loop.simps etcd_request_def
        Let_def length_puts failing_at_def ok_server_def is_ok_def post_of_def
        Status_EtcdError_def chunk_tx_def)

text \<open>
  C4 on 300 changes and a store that rejects the second transaction: two requests, the
  third slice never sent, one callback with the error and the revision of the rejection.
\<close>

theorem commitUpdates_intermediate_failure_witness:
  "commitUpdates (failing_at 1) ''/vineyard'' (puts 300) [] =
     (fst run_300_failing, snd run_300_failing) \<and>
   fst run_300_failing ! 1 \<in> set (drop (length ([] :: etcd_entry list)) (fst run_300_failing)) \<and>
   e_mode (fst run_300_failing ! 1) = Sync \<and>
   \<not> is_ok (e_resp (fst run_300_failing ! 1)) \<and>
   length (fst run_300_failing) = 2 \<and>
   snd run_300_failing = [(EtcdError 14 ''unavailable'', 1)]"
proof -
  have run: "commitUpdates (failing_at 1) ''/vineyard'' (puts 300) [] =
               (fst run_300_failing, snd run_300_failing)"
    by (simp add: run_300_failing_def)
  have e: "fst run_300_failing ! 1
             \<in> set (drop (length ([] :: etcd_entry list)) (fst run_300_failing))"
    "e_mode (fst run_300_failing ! 1) = Sync"
    "\<not> is_ok (e_resp (fst run_300_failing ! 1))"
    by (simp_all add: run_300_failing_eval is_ok_def)
  from commitUpdates_intermediate_failure [OF run e]
  obtain earlier where
    "fst run_300_failing = [] @ earlier @ [fst run_300_failing ! 1]"
    "127 * length earlier + 127 < length (puts 300)"
    "snd run_300_failing =
       [(Status_EtcdError (error_code (e_resp (fst run_300_failing ! 1)))
           (error_message (e_resp (fst run_300_failing ! 1))),
         word_of_int (index (e_resp (fst run_300_failing ! 1))))]"
    by blast
  then have "snd run_300_failing = [(EtcdError 14 ''unavailable'', 1)]"
    by (simp add: run_300_failing_eval Status_EtcdError_def)
  moreover have "length (fst run_300_failing) = 2"
    by (simp add: run_300_failing_eval)
  ultimately show ?thesis
    using run e by simp
qed

subsection \<open>The watch handler and requestAll\<close>

lemma handle_event_record:
  "handle_event w event ops =
     ops @ (case watch_record (wh_prefix w) (wh_filter_prefix w) event of
              None \<Rightarrow> [] | Some x \<Rightarrow> [x])"
  by (simp add: handle_event_def watch_record_def erase_head_copy_def split: EventType.splits)

lemma handle_events_map_filter:
  "handle_events w evs ops =
     ops @ List.map_filter (watch_record (wh_prefix w) (wh_filter_prefix w)) evs"
  by (induction evs arbitrary: ops)
     (simp_all add: handle_event_record List.map_filter_simps split: option.splits)

lemma ls_loop_map_filter:
  "ls_loop p rv kvs ops = ops @ List.map_filter (snapshot_record p rv) kvs"
proof (induction kvs arbitrary: ops)
  case Nil
  show ?case by (simp add: List.map_filter_simps)
next
  case (Cons a kvs)
  obtain k v where a: "a = (k, v)" by (cases a)
  show ?case
    by (auto simp add: a Cons.IH List.map_filter_simps snapshot_record_def
          erase_head_copy_def starts_with_def)
qed

text \<open>
  What \<^verbatim>\<open>requestAll\<close> hands to its callback: one default record per returned key, followed
  by the Put records of the keys that pass the filter.
\<close>

lemma requestAll_ops:
  "fst (snd (snd (requestAll srv p t r prefix base_rev h))) =
     replicate (length (keys_values (srv h (Ls (p @ prefix))))) (op_t_default t r) @
     List.map_filter (snapshot_record p (word_of_int (index (srv h (Ls (p @ prefix))))))
       (keys_values (srv h (Ls (p @ prefix))))"
  by (simp add: requestAll_def etcd_request_def Let_def ls_loop_map_filter)

lemma starts_with_drop:
  assumes "starts_with k (p @ s)"
  shows "starts_with (drop (length p) k) s"
proof -
  from assms have "take (length (p @ s)) k = p @ s"
    by (simp add: starts_with_def)
  then have "k = (p @ s) @ drop (length (p @ s)) k"
    by (metis append_take_drop_id)
  then have "k = p @ (s @ drop (length (p @ s)) k)"
    by simp
  then have "drop (length p) k = s @ drop (length (p @ s)) k"
    by (metis append_eq_conv_conj)
  then show ?thesis
    by (simp add: starts_with_def)
qed

lemma watch_record_key:
  "watch_record p f ev = Some c \<Longrightarrow> starts_with (kv_key (kv c)) ''/''"
  by (auto simp: watch_record_def op_t_Put_def op_t_Del_def starts_with_drop
      split: if_splits EventType.splits)

text \<open>Every key the watch handler emits begins with the separator.\<close>

lemma watch_handler_keys:
  "c \<in> set (fst (snd (EtcdWatchHandler_call w resp))) \<Longrightarrow> starts_with (kv_key (kv c)) ''/''"
  by (auto simp: EtcdWatchHandler_call_def handle_events_map_filter List.map_filter_def
      dest: watch_record_key)

text \<open>Every Put record \<^verbatim>\<open>requestAll\<close> builds has a key that begins with the separator.\<close>

lemma snapshot_record_key:
  "snapshot_record p rv kv0 = Some c \<Longrightarrow> starts_with (kv_key (kv c)) ''/''"
  by (auto simp: snapshot_record_def op_t_Put_def starts_with_drop split: if_splits)

text \<open>
  Claim C5, as stated, at an empty sync-lock prefix (empty \<^verbatim>\<open>prefix_\<close> and
  \<^verbatim>\<open>meta_sync_lock_\<close>): the key of the event starts with the sync-lock prefix, and a record is
  emitted for it.
\<close>

theorem watch_handler_empty_filter_emits:
  "starts_with ''/a'' (wh_filter_prefix \<lparr>wh_prefix = [], wh_filter_prefix = []\<rparr>) \<and>
   fst (snd (EtcdWatchHandler_call \<lparr>wh_prefix = [], wh_filter_prefix = []\<rparr>
     \<lparr>error_code = 0, error_message = [], index = 7,
      events = [\<lparr>ev_type = PUT, ev_key = ''/a'', ev_value = ''1'', ev_mod_revision = 7\<rparr>],
      keys_values = [], lock_key = []\<rparr>)) = [op_t_Put ''/a'' ''1'' 7]"
  by (simp add: EtcdWatchHandler_call_def handle_event_def starts_with_def erase_head_copy_def)

text \<open>
  Claim C5, amended. For every batch of events the handler posts one callback whose list
  holds, in the order of the batch, the record of each event: none for an event whose key
  starts with a non-empty sync-lock prefix (an empty one filters nothing) or does not start
  with \<^verbatim>\<open>prefix + "/"\<close>; for the others a Put with the stripped key, the value and the
  modification revision for a PUT event, a Del with the stripped key and the modification
  revision for a DELETE event, and none for any other event type.
\<close>

theorem watch_handler_records:
  "EtcdWatchHandler_call w resp =
     (Status_EtcdError (error_code resp) (error_message resp),
      List.map_filter (watch_record (wh_prefix w) (wh_filter_prefix w)) (events resp),
      word_of_int (index resp))"
  by (simp add: EtcdWatchHandler_call_def handle_events_map_filter)

text \<open>
  C5 on five events: a PUT and a DELETE under the prefix give a Put and a Del in that
  order; the sync-lock key, the foreign key and the unknown event type give nothing.
\<close>

theorem watch_handler_records_witness:
  "EtcdWatchHandler_call
     \<lparr>wh_prefix = ''/vineyard'', wh_filter_prefix = ''/vineyard/meta_sync_lock''\<rparr> five_events =
     (OK, [op_t_Put ''/a'' ''1'' 5, op_t_Del ''/b'' 7], 9)"
  using watch_handler_records
    [of "\<lparr>wh_prefix = ''/vineyard'', wh_filter_prefix = ''/vineyard/meta_sync_lock''\<rparr>"
        five_events]
  by (simp add: five_events_def watch_record_def starts_with_def List.map_filter_simps
        Status_EtcdError_def)

text \<open>
  Claim C6, at a snapshot that returns the one key \<^verbatim>\<open>/vineyard/a\<close> at revision 7: the list
  handed to the callback holds a default record before the Put record of the key, whatever
  tag and revision a default record has; the records of the keys that pass the filter are
  the Put record alone.
\<close>

theorem requestAll_placeholder_records:
  "snd (requestAll (snapshot_server [(''/vineyard/a'', ''1'')] 7) ''/vineyard'' t r [] 0 []) =
     (OK, [op_t_default t r, op_t_Put ''/a'' ''1'' 7], 7) \<and>
   List.map_filter (snapshot_record ''/vineyard'' 7) [(''/vineyard/a'', ''1'')] =
     [op_t_Put ''/a'' ''1'' 7]"
  by (simp add: requestAll_def etcd_request_def Let_def snapshot_server_def starts_with_def
        erase_head_copy_def Status_EtcdError_def snapshot_record_def List.map_filter_simps)

text \<open>
  Claim C9. Two calls of \<^verbatim>\<open>requestAll\<close> that differ only in \<^verbatim>\<open>base_rev\<close> send the same
  request to the backing store and post the same status, records and revision.
\<close>

theorem requestAll_ignores_base_rev:
  "requestAll srv this_prefix t r prefix base_rev h =
   requestAll srv this_prefix t r prefix base_rev' h"
  by (simp add: requestAll_def)

text \<open>C9 on base revisions 0 and 99 of the same snapshot.\<close>

theorem requestAll_ignores_base_rev_witness:
  "requestAll (snapshot_server [(''/vineyard/a'', ''1'')] 7) ''/vineyard'' kPut 0 [] 0 [] =
   requestAll (snapshot_server [(''/vineyard/a'', ''1'')] 7) ''/vineyard'' kPut 0 [] 99 []"
  by (rule requestAll_ignores_base_rev)

text \<open>
  Claim C10, at the same snapshot: the keys of the records \<^verbatim>\<open>requestAll\<close> hands to its
  callback are the empty key of the default record, which does not begin with the
  separator, and \<^verbatim>\<open>/a\<close>.
\<close>

theorem requestAll_emits_empty_key:
  "map (\<lambda>c. kv_key (kv c))
     (fst (snd (snd (requestAll (snapshot_server [(''/vineyard/a'', ''1'')] 7) ''/vineyard''
                       t r [] 0 [])))) = ['''', ''/a''] \<and>
   \<not> starts_with '''' ''/''"
  by (simp add: requestAll_def etcd_request_def Let_def snapshot_server_def starts_with_def
        erase_head_copy_def op_t_default_def op_t_Put_def)

subsection \<open>The daemon watch and Stop\<close>

lemma word_lt_succ: "(x :: 32 word) \<noteq> - 1 \<Longrightarrow> x < x + 1"
  using inc_less_eq_self_iff_eq [of x] by (simp add: not_le [symmetric])

lemma dw_step_stopped:
  "watch_cancelled s \<Longrightarrow> \<not> timer_pending s \<Longrightarrow> dw_step ev s = Some s' \<Longrightarrow> s' = s"
  by (cases ev)
     (auto simp: watch_cancelled_def timer_pending_def wait_callback_def backoff_timer_fires_def
        split: option.splits if_splits)

lemma dw_run_stopped:
  "watch_cancelled s \<Longrightarrow> \<not> timer_pending s \<Longrightarrow> dw_run evs s = Some s' \<Longrightarrow> s' = s"
proof (induction evs)
  case Nil
  then show ?case by simp
next
  case (Cons ev evs)
  from Cons.prems(3) obtain s1 where s1: "dw_step ev s = Some s1" and r: "dw_run evs s1 = Some s'"
    by (auto split: option.splits)
  from dw_step_stopped [OF Cons.prems(1,2) s1] have "s1 = s" .
  with r Cons.IH [OF Cons.prems(1,2)] show ?case by simp
qed

lemma Stop_stopped:
  "watch_cancelled (Stop False s)" "timer_pending (Stop c s) = timer_pending s"
  by (auto simp: Stop_def Watcher_Cancel_def Let_def watch_cancelled_def timer_pending_def
      split: option.splits)

text \<open>
  Claim C7, as stated, at a service whose backoff timer is pending: \<^verbatim>\<open>Stop\<close> leaves the
  timer pending, and when it fires afterwards the service subscribes again, with a watcher
  that is not cancelled.
\<close>

theorem Stop_pending_timer_resubscribes:
  "timer_pending (retryDaeminWatch ''/'' 41 idle_service) \<and>
   timer_pending (Stop False (retryDaeminWatch ''/'' 41 idle_service)) \<and>
   map_option ms_watcher
     (backoff_timer_fires False False (Stop False (retryDaeminWatch ''/'' 41 idle_service))) =
     Some (Some \<lparr>w_key = ''/vineyard/'', w_fromIndex = 42,
                 w_handler = \<lparr>wh_prefix = ''/vineyard'',
                              wh_filter_prefix = ''/vineyard/meta_sync_lock''\<rparr>,
                 w_recursive = True, w_wait_prefix = ''/'', w_cancelled = False\<rparr>)"
  by (simp add: Stop_def Let_def retryDaeminWatch_def idle_service_def timer_pending_def
        backoff_timer_fires_def backoff_handler_def startDaemonWatch_def BACKOFF_RETRY_TIME_def)

text \<open>
  Claim C7, amended. \<^verbatim>\<open>Stop\<close> cancels the daemon watch subscription when there is one, and
  completes also when the cancellation throws; it sends \<^verbatim>\<open>terminate\<close>, \<^verbatim>\<open>SIGTERM\<close> and \<^verbatim>\<open>wait\<close>
  to an owned child process; it leaves the backoff timer as it is. After \<^verbatim>\<open>Stop\<close>, the
  termination of the watch reported as cancelled arms no retry. When no backoff timer was
  pending at \<^verbatim>\<open>Stop\<close>, none fires afterwards, and once the cancellation has taken effect no
  sequence of watch endings and timer completions changes the service: no retry is armed
  and nothing subscribes again.
\<close>

theorem Stop_effects:
  "ms_watcher (Stop False s) = map_option (\<lambda>w. w\<lparr>w_cancelled := True\<rparr>) (ms_watcher s) \<and>
   ms_watcher (Stop True s) = ms_watcher s \<and>
   ms_etcd_proc (Stop cancel_throws s) =
     map_option (\<lambda>calls. calls @ [proc_terminate, proc_kill_SIGTERM, proc_wait])
       (ms_etcd_proc s) \<and>
   ms_backoff_timer (Stop cancel_throws s) = ms_backoff_timer s \<and>
   wait_callback prefix True (Stop cancel_throws s) = Stop cancel_throws s \<and>
   (\<not> timer_pending s \<longrightarrow>
      backoff_timer_fires error ctor_throws (Stop cancel_throws s) = None \<and>
      (dw_run evs (Stop False s) = Some s' \<longrightarrow> s' = Stop False s))"
proof -
  have "\<not> timer_pending s \<Longrightarrow> dw_run evs (Stop False s) = Some s' \<Longrightarrow> s' = Stop False s"
    using dw_run_stopped [of "Stop False s" evs s'] Stop_stopped by simp
  moreover have
   "ms_watcher (Stop False s) = map_option (\<lambda>w. w\<lparr>w_cancelled := True\<rparr>) (ms_watcher s) \<and>
    ms_watcher (Stop True s) = ms_watcher s \<and>
    ms_etcd_proc (Stop cancel_throws s) =
     map_option (\<lambda>calls. calls @ [proc_terminate, proc_kill_SIGTERM, proc_wait])
       (ms_etcd_proc s) \<and>
    ms_backoff_timer (Stop cancel_throws s) = ms_backoff_timer s \<and>
    wait_callback prefix True (Stop cancel_throws s) = Stop cancel_throws s \<and>
    (\<not> timer_pending s \<longrightarrow>
      backoff_timer_fires error ctor_throws (Stop cancel_throws s) = None)"
    by (cases cancel_throws)
       (auto simp: Stop_def Watcher_Cancel_def Let_def wait_callback_def timer_pending_def
          backoff_timer_fires_def split: option.splits)
  ultimately show ?thesis by blast
qed

text \<open>
  C7 on a service that is watching, with no timer pending: \<^verbatim>\<open>Stop\<close> cancels the watcher and
  stops the child, no timer fires afterwards, and the end of the cancelled watch changes
  nothing.
\<close>

theorem Stop_effects_witness:
  "\<not> timer_pending (startDaemonWatch False ''/'' 41 idle_service) \<and>
   map_option w_cancelled (ms_watcher (Stop False (startDaemonWatch False ''/'' 41 idle_service)))
     = Some True \<and>
   ms_etcd_proc (Stop False (startDaemonWatch False ''/'' 41 idle_service)) =
     Some [proc_terminate, proc_kill_SIGTERM, proc_wait] \<and>
   backoff_timer_fires False False (Stop False (startDaemonWatch False ''/'' 41 idle_service))
     = None \<and>
   dw_run [WatchEnds, WatchEnds] (Stop False (startDaemonWatch False ''/'' 41 idle_service)) =
     Some (Stop False (startDaemonWatch False ''/'' 41 idle_service))"
proof -
  have np: "\<not> timer_pending (startDaemonWatch False ''/'' 41 idle_service)"
    by (simp add: timer_pending_def startDaemonWatch_def idle_service_def)
  have run: "dw_run [WatchEnds, WatchEnds] (Stop False (startDaemonWatch False ''/'' 41 idle_service)) =
     Some (Stop False (startDaemonWatch False ''/'' 41 idle_service))"
    by (simp add: startDaemonWatch_def idle_service_def Stop_def Let_def Watcher_Cancel_def
          wait_callback_def)
  from Stop_effects [of "startDaemonWatch False ''/'' 41 idle_service" False "''/''" False False
                        "[WatchEnds, WatchEnds]"
                        "Stop False (startDaemonWatch False ''/'' 41 idle_service)"]
    np
  have "map_option w_cancelled
          (ms_watcher (Stop False (startDaemonWatch False ''/'' 41 idle_service))) = Some True \<and>
        ms_etcd_proc (Stop False (startDaemonWatch False ''/'' 41 idle_service)) =
          Some [proc_terminate, proc_kill_SIGTERM, proc_wait] \<and>
        backoff_timer_fires False False
          (Stop False (startDaemonWatch False ''/'' 41 idle_service)) = None"
    by (simp add: startDaemonWatch_def idle_service_def)
  with np run show ?thesis by blast
qed

text \<open>
  Claim C8, as stated, at a service whose current revision is the largest \<^verbatim>\<open>unsigned\<close> value,
  4294967295: the watch ends uncancelled, the timer fires and the service subscribes again
  from revision 0, below the current revision, so every revision delivered so far is
  delivered again.
\<close>

theorem daemon_watch_retry_wraps:
  "ms_rev (idle_service\<lparr>ms_rev := 4294967295\<rparr>) = 4294967295 \<and>
   map_option ms_watcher
     (backoff_timer_fires False False
        (wait_callback ''/'' False (idle_service\<lparr>ms_rev := 4294967295\<rparr>))) =
     Some (Some \<lparr>w_key = ''/vineyard/'', w_fromIndex = 0,
                 w_handler = \<lparr>wh_prefix = ''/vineyard'',
                              wh_filter_prefix = ''/vineyard/meta_sync_lock''\<rparr>,
                 w_recursive = True, w_wait_prefix = ''/'', w_cancelled = False\<rparr>) \<and>
   (0 :: unsigned) < 4294967295"
  by (simp add: wait_callback_def retryDaeminWatch_def backoff_timer_fires_def
        backoff_handler_def startDaemonWatch_def BACKOFF_RETRY_TIME_def idle_service_def)

text \<open>
  Claim C8, amended. The callback given to \<^verbatim>\<open>Wait\<close> does nothing when the watch ended
  cancelled: no retry is armed. On any other termination it arms a backoff timer of 10
  seconds that keeps the revision current at the termination. When that timer fires, with
  or without an error code and whatever the revision has become meanwhile, the service
  subscribes again from the kept revision plus one in 32-bit \<^verbatim>\<open>unsigned\<close> arithmetic: above the
  kept revision, so that nothing delivered is replayed, unless the kept revision is the
  largest \<^verbatim>\<open>unsigned\<close> value, where the watch starts again from 0. If the watcher cannot be
  created the timer is armed again with the same revision.
\<close>

theorem daemon_watch_retry:
  "wait_callback prefix True s = s \<and>
   wait_callback prefix False s =
     s\<lparr>ms_backoff_timer :=
         Some \<lparr>t_seconds = 10, t_prefix = prefix, t_since_rev = ms_rev s, t_pending = True\<rparr>\<rparr> \<and>
   backoff_timer_fires error False (wait_callback prefix False s) =
     Some (s\<lparr>ms_backoff_timer :=
               Some \<lparr>t_seconds = 10, t_prefix = prefix, t_since_rev = ms_rev s,
                     t_pending = False\<rparr>,
             ms_watcher :=
               Some \<lparr>w_key = ms_prefix s @ prefix, w_fromIndex = ms_rev s + 1,
                     w_handler = \<lparr>wh_prefix = ms_prefix s,
                                  wh_filter_prefix = ms_prefix s @ ms_meta_sync_lock s\<rparr>,
                     w_recursive = True, w_wait_prefix = prefix, w_cancelled = False\<rparr>\<rparr>) \<and>
   map_option (\<lambda>s'. map_option w_fromIndex (ms_watcher s'))
     (backoff_timer_fires error False ((wait_callback prefix False s)\<lparr>ms_rev := later_rev\<rparr>)) =
     Some (Some (ms_rev s + 1)) \<and>
   backoff_timer_fires error True (wait_callback prefix False s) =
     Some (wait_callback prefix False s) \<and>
   (ms_rev s \<noteq> - 1 \<longrightarrow>
      map_option (\<lambda>s'. map_option (\<lambda>w. ms_rev s < w_fromIndex w) (ms_watcher s'))
        (backoff_timer_fires error False
           ((wait_callback prefix False s)\<lparr>ms_rev := later_rev\<rparr>)) = Some (Some True)) \<and>
   (ms_rev s = - 1 \<longrightarrow>
      map_option (\<lambda>s'. map_option w_fromIndex (ms_watcher s'))
        (backoff_timer_fires error False
           ((wait_callback prefix False s)\<lparr>ms_rev := later_rev\<rparr>)) = Some (Some 0))"
  by (simp add: wait_callback_def retryDaeminWatch_def backoff_timer_fires_def
        backoff_handler_def startDaemonWatch_def BACKOFF_RETRY_TIME_def word_lt_succ)

text \<open>
  C8 on a service at revision 41 whose watch ends uncancelled: it subscribes again from 42,
  above 41, also when the revision has moved to 50 before the timer fires.
\<close>

theorem daemon_watch_retry_witness:
  "ms_rev idle_service \<noteq> - 1 \<and>
   map_option (\<lambda>s. map_option w_fromIndex (ms_watcher s))
     (backoff_timer_fires False False (wait_callback ''/'' False idle_service)) =
     Some (Some 42) \<and>
   map_option (\<lambda>s. map_option w_fromIndex (ms_watcher s))
     (backoff_timer_fires False False ((wait_callback ''/'' False idle_service)\<lparr>ms_rev := 50\<rparr>)) =
     Some (Some 42) \<and>
   map_option (\<lambda>s'. map_option (\<lambda>w. ms_rev idle_service < w_fromIndex w) (ms_watcher s'))
     (backoff_timer_fires False False ((wait_callback ''/'' False idle_service)\<lparr>ms_rev := 50\<rparr>)) =
     Some (Some True) \<and>
   ms_rev idle_service = 41"
proof -
  have r: "ms_rev idle_service = 41"
    by (simp add: idle_service_def)
  then have ne: "ms_rev idle_service \<noteq> - 1"
    by simp
  note th = daemon_watch_retry [of "''/''" idle_service False 50]
  from th have a: "map_option (\<lambda>s. map_option w_fromIndex (ms_watcher s))
          (backoff_timer_fires False False (wait_callback ''/'' False idle_service)) =
          Some (Some (ms_rev idle_service + 1))"
    by (elim conjE) simp
  from th have b: "map_option (\<lambda>s. map_option w_fromIndex (ms_watcher s))
          (backoff_timer_fires False False
             ((wait_callback ''/'' False idle_service)\<lparr>ms_rev := 50\<rparr>)) =
          Some (Some (ms_rev idle_service + 1))"
    by (elim conjE)
  from th ne have c: "map_option (\<lambda>s'. map_option (\<lambda>w. ms_rev idle_service < w_fromIndex w) (ms_watcher s'))
     (backoff_timer_fires False False ((wait_callback ''/'' False idle_service)\<lparr>ms_rev := 50\<rparr>)) =
     Some (Some True)"
    by (elim conjE) blast
  from a b c ne r show ?thesis
    by simp
qed

end
